theory Spec2Isabelle
  imports Main "HOL-Library.Word"
begin

section \<open>Data model of the transaction pool\<close>

text \<open>
  The development embeds \<^verbatim>\<open>modules/transactionpool/update.go\<close>: the pool's
  \<^verbatim>\<open>purge\<close>, \<^verbatim>\<open>PurgeTransactionPool\<close> and \<^verbatim>\<open>ProcessConsensusChange\<close>.
  Identifiers are hashes in the program; here they are numbers. A block height is Go's
  \<^verbatim>\<open>uint64\<close>, so a 64-bit word whose \<open>+\<close> and \<open>-\<close> wrap around.
\<close>

type_synonym TransactionID = nat
type_synonym ObjectID = nat
type_synonym TransactionSetID = nat
type_synonym ChangeID = nat
type_synonym BlockHeight = "64 word"
type_synonym error = string

text \<open>
  Modelled from the spec: \<^verbatim>\<open>types.Transaction\<close> and \<^verbatim>\<open>types.Block\<close> are declared
  in another package. A transaction is an immutable value exposing a stable \<^verbatim>\<open>ID()\<close>
  and referring to zero or more objects; a block contains an ordered sequence of
  transactions.
\<close>

datatype Transaction = Transaction (ID: TransactionID) (objects: "ObjectID list")

record Block =
  Transactions :: "Transaction list"

text \<open>
  Modelled from the spec: \<^verbatim>\<open>modules.ConsensusChange\<close> is declared in another package.
  It carries the reverted blocks (most recently applied first), the applied blocks (in
  chain order), the change identifier and the validation capability, which returns
  either an error or the diff of the validated set (type \<open>'d\<close>).
\<close>

record 'd ConsensusChange =
  ccID :: ChangeID
  RevertedBlocks :: "Block list"
  AppliedBlocks :: "Block list"
  TryTransactionSet :: "Transaction list \<Rightarrow> error + 'd"

text \<open>
  Modelled from the spec: the lock type of the pool is declared in another package. It
  offers exclusive acquisition, demotion from exclusive to shared and release; in this
  sequential model only the mode the calling thread holds is recorded.
\<close>

datatype LockMode = Unlocked | Exclusive | Shared

text \<open>
  The fields of \<^verbatim>\<open>TransactionPool\<close> that \<^verbatim>\<open>update.go\<close> reads or writes. \<open>dbTx\<close> is
  the state of the durable store (type \<open>'db\<close>), \<open>log\<close> the lines printed to the
  logger, \<open>notified\<close> the pool contents handed to the subscribers so far.
\<close>

record ('db, 'd) TransactionPool =
  knownObjects :: "ObjectID \<rightharpoonup> TransactionSetID"
  transactionSets :: "TransactionSetID \<rightharpoonup> Transaction list"
  transactionSetDiffs :: "TransactionSetID \<rightharpoonup> 'd"
  transactionListSize :: int
  blockHeight :: BlockHeight
  transactionHeights :: "TransactionID \<rightharpoonup> BlockHeight"
  dbTx :: 'db
  log :: "string list"
  mu :: LockMode
  notified :: "(TransactionSetID \<rightharpoonup> Transaction list) list"

text \<open>
  The four operations of the durable store, defined in another file of the package, are
  parameters: each takes the store and returns an optional error and the new store.
\<close>

record 'db Mirror =
  deleteTransaction :: "'db \<Rightarrow> TransactionID \<Rightarrow> error option \<times> 'db"
  addTransaction :: "'db \<Rightarrow> TransactionID \<Rightarrow> error option \<times> 'db"
  putRecentConsensusChange :: "'db \<Rightarrow> ChangeID \<Rightarrow> error option \<times> 'db"
  putBlockHeight :: "'db \<Rightarrow> BlockHeight \<Rightarrow> error option \<times> 'db"

text \<open>
  \<^verbatim>\<open>acceptTransactionSet\<close>, defined in another file of the package, is a parameter as
  well: from a transaction set, the validation capability and the pool it returns an
  optional error and the pool it leaves behind.
\<close>

type_synonym ('db, 'd) gate =
  "Transaction list \<Rightarrow> (Transaction list \<Rightarrow> error + 'd) \<Rightarrow> ('db, 'd) TransactionPool
    \<Rightarrow> error option \<times> ('db, 'd) TransactionPool"

section \<open>The lock and the subscribers\<close>

definition mu_Lock :: "('db, 'd) TransactionPool \<Rightarrow> ('db, 'd) TransactionPool" where
  "mu_Lock tp = tp\<lparr>mu := Exclusive\<rparr>"

definition mu_Unlock :: "('db, 'd) TransactionPool \<Rightarrow> ('db, 'd) TransactionPool" where
  "mu_Unlock tp = tp\<lparr>mu := Unlocked\<rparr>"

definition mu_Demote :: "('db, 'd) TransactionPool \<Rightarrow> ('db, 'd) TransactionPool" where
  "mu_Demote tp = tp\<lparr>mu := Shared\<rparr>"

definition mu_DemotedUnlock :: "('db, 'd) TransactionPool \<Rightarrow> ('db, 'd) TransactionPool" where
  "mu_DemotedUnlock tp = tp\<lparr>mu := Unlocked\<rparr>"

text \<open>
  Modelled from the spec: \<^verbatim>\<open>updateSubscribersTransactions\<close> is defined in another file
  of the package. It hands the current pool contents to the subscribers and changes
  nothing else.
\<close>

definition updateSubscribersTransactions ::
  "('db, 'd) TransactionPool \<Rightarrow> ('db, 'd) TransactionPool" where
  "updateSubscribersTransactions tp = tp\<lparr>notified := notified tp @ [transactionSets tp]\<rparr>"

section \<open>purge and PurgeTransactionPool\<close>

definition maxTxnAge :: BlockHeight where
  "maxTxnAge = 12"

definition purge :: "('db, 'd) TransactionPool \<Rightarrow> ('db, 'd) TransactionPool" where
  "purge tp = tp\<lparr>knownObjects := Map.empty, transactionSets := Map.empty,
                 transactionSetDiffs := Map.empty, transactionListSize := 0\<rparr>"

definition PurgeTransactionPool :: "('db, 'd) TransactionPool \<Rightarrow> ('db, 'd) TransactionPool" where
  "PurgeTransactionPool tp = mu_Unlock (purge (mu_Lock tp))"

section \<open>ProcessConsensusChange\<close>

subsection \<open>Updating the database of confirmed transactions\<close>

definition logError ::
  "string \<Rightarrow> error option \<Rightarrow> ('db, 'd) TransactionPool \<Rightarrow> ('db, 'd) TransactionPool" where
  "logError msg err tp = (case err of None \<Rightarrow> tp | Some e \<Rightarrow> tp\<lparr>log := log tp @ [msg @ '' '' @ e]\<rparr>)"

definition revertTxn ::
  "'db Mirror \<Rightarrow> ('db, 'd) TransactionPool \<Rightarrow> Transaction \<Rightarrow> ('db, 'd) TransactionPool" where
  "revertTxn M tp txn =
     (case deleteTransaction M (dbTx tp) (ID txn) of
        (err, db) \<Rightarrow> logError ''ERROR: could not delete a transaction:'' err (tp\<lparr>dbTx := db\<rparr>))"

definition revertBlock ::
  "'db Mirror \<Rightarrow> ('db, 'd) TransactionPool \<Rightarrow> Block \<Rightarrow> ('db, 'd) TransactionPool" where
  "revertBlock M tp block =
     foldl (revertTxn M) (tp\<lparr>blockHeight := blockHeight tp - 1\<rparr>) (Transactions block)"

definition applyTxn ::
  "'db Mirror \<Rightarrow> ('db, 'd) TransactionPool \<Rightarrow> Transaction \<Rightarrow> ('db, 'd) TransactionPool" where
  "applyTxn M tp txn =
     (case addTransaction M (dbTx tp) (ID txn) of
        (err, db) \<Rightarrow> logError ''ERROR: could not add a transaction:'' err (tp\<lparr>dbTx := db\<rparr>))"

definition applyBlock ::
  "'db Mirror \<Rightarrow> ('db, 'd) TransactionPool \<Rightarrow> Block \<Rightarrow> ('db, 'd) TransactionPool" where
  "applyBlock M tp block =
     foldl (applyTxn M) (tp\<lparr>blockHeight := blockHeight tp + 1\<rparr>) (Transactions block)"

definition recordChange ::
  "'db Mirror \<Rightarrow> ChangeID \<Rightarrow> ('db, 'd) TransactionPool \<Rightarrow> ('db, 'd) TransactionPool" where
  "recordChange M c tp =
     (case putRecentConsensusChange M (dbTx tp) c of
        (err, db) \<Rightarrow>
          logError ''ERROR: could not update the recent consensus change:'' err (tp\<lparr>dbTx := db\<rparr>))"

definition recordHeight ::
  "'db Mirror \<Rightarrow> ('db, 'd) TransactionPool \<Rightarrow> ('db, 'd) TransactionPool" where
  "recordHeight M tp =
     (case putBlockHeight M (dbTx tp) (blockHeight tp) of
        (err, db) \<Rightarrow> logError ''ERROR: could not update the block height:'' err (tp\<lparr>dbTx := db\<rparr>))"

definition updateDatabase ::
  "'db Mirror \<Rightarrow> 'd ConsensusChange \<Rightarrow> ('db, 'd) TransactionPool \<Rightarrow> ('db, 'd) TransactionPool" where
  "updateDatabase M cc tp =
     recordHeight M (recordChange M (ccID cc)
       (foldl (applyBlock M) (foldl (revertBlock M) tp (RevertedBlocks cc)) (AppliedBlocks cc)))"

subsection \<open>The transactions confirmed by the change\<close>

definition scanApplied :: "'d ConsensusChange \<Rightarrow> TransactionID set" where
  "scanApplied cc =
     foldl (\<lambda>txids block. foldl (\<lambda>txids txn. insert (ID txn) txids) txids (Transactions block))
       {} (AppliedBlocks cc)"

subsection \<open>Saving the unconfirmed sets\<close>

text \<open>
  Go ranges over the map \<^verbatim>\<open>tp.transactionSets\<close> in an order of its own choosing. The
  order in which the keys are visited is the parameter \<open>order\<close> (a listing of the
  domain of the map, each key once).
\<close>

definition stripConfirmed :: "TransactionID set \<Rightarrow> Transaction list \<Rightarrow> Transaction list" where
  "stripConfirmed txids tSet =
     foldl (\<lambda>newTSet txn. if ID txn \<in> txids then newTSet else newTSet @ [txn]) [] tSet"

definition saveUnconfirmed ::
  "TransactionID set \<Rightarrow> TransactionSetID list \<Rightarrow> ('db, 'd) TransactionPool
    \<Rightarrow> Transaction list list" where
  "saveUnconfirmed txids order tp =
     foldl (\<lambda>unconfirmedSets k.
              unconfirmedSets @
                [stripConfirmed txids (case transactionSets tp k of Some tSet \<Rightarrow> tSet | None \<Rightarrow> [])])
       [] order"

definition rangeOrder :: "TransactionSetID list \<Rightarrow> ('db, 'd) TransactionPool \<Rightarrow> bool" where
  "rangeOrder order tp \<longleftrightarrow> distinct order \<and> set order = dom (transactionSets tp)"

subsection \<open>Pruning the transactions older than maxTxnAge\<close>

type_synonym pruneState = "(TransactionID \<rightharpoonup> BlockHeight) \<times> Transaction list"

definition pruneTxn :: "BlockHeight \<Rightarrow> pruneState \<Rightarrow> Transaction \<Rightarrow> pruneState" where
  "pruneTxn bh st txn =
     (case st of (heights, validTxns) \<Rightarrow>
        (case (case heights (ID txn) of Some h \<Rightarrow> (h, True) | None \<Rightarrow> (0, False)) of
           (seenHeight, seen) \<Rightarrow>
             if bh - seenHeight \<le> maxTxnAge \<or> \<not> seen
             then (heights, validTxns @ [txn])
             else (heights(ID txn := None), validTxns)))"

definition pruneSet ::
  "BlockHeight \<Rightarrow> (TransactionID \<rightharpoonup> BlockHeight) \<Rightarrow> Transaction list \<Rightarrow> pruneState" where
  "pruneSet bh heights tSet = foldl (pruneTxn bh) (heights, []) tSet"

definition pruneAt ::
  "BlockHeight \<Rightarrow> (TransactionID \<rightharpoonup> BlockHeight) \<times> Transaction list list \<Rightarrow> nat
    \<Rightarrow> (TransactionID \<rightharpoonup> BlockHeight) \<times> Transaction list list" where
  "pruneAt bh st i =
     (case st of (heights, unconfirmedSets) \<Rightarrow>
        (case pruneSet bh heights (unconfirmedSets ! i) of
           (heights', validTxns) \<Rightarrow> (heights', unconfirmedSets[i := validTxns])))"

definition pruneOld ::
  "('db, 'd) TransactionPool \<Rightarrow> Transaction list list
    \<Rightarrow> ('db, 'd) TransactionPool \<times> Transaction list list" where
  "pruneOld tp unconfirmedSets =
     (case foldl (pruneAt (blockHeight tp)) (transactionHeights tp, unconfirmedSets)
             [0..<length unconfirmedSets] of
        (heights, unconfirmedSets') \<Rightarrow> (tp\<lparr>transactionHeights := heights\<rparr>, unconfirmedSets'))"

subsection \<open>Re-adding the transactions of the reverted blocks\<close>

definition resurrectTxn ::
  "('db, 'd) gate \<Rightarrow> 'd ConsensusChange \<Rightarrow> TransactionID set
    \<Rightarrow> ('db, 'd) TransactionPool \<Rightarrow> Transaction \<Rightarrow> ('db, 'd) TransactionPool" where
  "resurrectTxn accept cc txids tp txn =
     (if ID txn \<in> txids then tp else snd (accept [txn] (TryTransactionSet cc) tp))"

text \<open>
  The loop \<^verbatim>\<open>for i := len(cc.RevertedBlocks) - 1; i >= 0; i--\<close>: the first argument is
  the number of blocks still to visit, so the block visited next has index one less.
\<close>

fun resurrectFrom ::
  "nat \<Rightarrow> ('db, 'd) gate \<Rightarrow> 'd ConsensusChange \<Rightarrow> TransactionID set
    \<Rightarrow> ('db, 'd) TransactionPool \<Rightarrow> ('db, 'd) TransactionPool" where
  "resurrectFrom 0 accept cc txids tp = tp"
| "resurrectFrom (Suc i) accept cc txids tp =
     resurrectFrom i accept cc txids
       (foldl (resurrectTxn accept cc txids) tp (Transactions (RevertedBlocks cc ! i)))"

definition resurrect ::
  "('db, 'd) gate \<Rightarrow> 'd ConsensusChange \<Rightarrow> TransactionID set
    \<Rightarrow> ('db, 'd) TransactionPool \<Rightarrow> ('db, 'd) TransactionPool" where
  "resurrect accept cc txids tp = resurrectFrom (length (RevertedBlocks cc)) accept cc txids tp"

subsection \<open>Re-adding the unconfirmed sets\<close>

definition readmitTxn ::
  "('db, 'd) gate \<Rightarrow> 'd ConsensusChange
    \<Rightarrow> ('db, 'd) TransactionPool \<Rightarrow> Transaction \<Rightarrow> ('db, 'd) TransactionPool" where
  "readmitTxn accept cc tp txn =
     (case accept [txn] (TryTransactionSet cc) tp of
        (None, tp') \<Rightarrow> tp'
      | (Some err, tp') \<Rightarrow> tp'\<lparr>transactionHeights := (transactionHeights tp')(ID txn := None)\<rparr>)"

definition readmit ::
  "('db, 'd) gate \<Rightarrow> 'd ConsensusChange \<Rightarrow> Transaction list list
    \<Rightarrow> ('db, 'd) TransactionPool \<Rightarrow> ('db, 'd) TransactionPool" where
  "readmit accept cc unconfirmedSets tp =
     foldl (\<lambda>tp tSet. foldl (readmitTxn accept cc) tp tSet) tp unconfirmedSets"

subsection \<open>The whole operation\<close>

text \<open>Everything between \<^verbatim>\<open>tp.mu.Lock()\<close> and \<^verbatim>\<open>tp.mu.Demote()\<close>.\<close>

definition reconcile ::
  "'db Mirror \<Rightarrow> ('db, 'd) gate \<Rightarrow> TransactionSetID list \<Rightarrow> 'd ConsensusChange
    \<Rightarrow> ('db, 'd) TransactionPool \<Rightarrow> ('db, 'd) TransactionPool" where
  "reconcile M accept order cc tp0 =
     (let tp = updateDatabase M cc tp0;
          txids = scanApplied cc;
          unconfirmedSets = saveUnconfirmed txids order tp;
          tp = purge tp
      in case pruneOld tp unconfirmedSets of
           (tp, unconfirmedSets) \<Rightarrow>
             readmit accept cc unconfirmedSets (resurrect accept cc txids tp))"

definition ProcessConsensusChange ::
  "'db Mirror \<Rightarrow> ('db, 'd) gate \<Rightarrow> TransactionSetID list \<Rightarrow> 'd ConsensusChange
    \<Rightarrow> ('db, 'd) TransactionPool \<Rightarrow> ('db, 'd) TransactionPool" where
  "ProcessConsensusChange M accept order cc tp =
     mu_DemotedUnlock (updateSubscribersTransactions (mu_Demote
       (reconcile M accept order cc (mu_Lock tp))))"

section \<open>Reference definitions\<close>

text \<open>The identifiers of the transactions contained in the applied blocks of a change.\<close>

definition appliedIDs :: "'d ConsensusChange \<Rightarrow> TransactionID set" where
  "appliedIDs cc = set (map ID (concat (map Transactions (AppliedBlocks cc))))"

text \<open>
  The transactions offered for resurrection, as the specification words it: the reverted
  blocks in the reverse of the order of \<^verbatim>\<open>cc.RevertedBlocks\<close>, each block's transactions
  in order, without those whose identifier is in an applied block.
\<close>

definition resurrectionCandidates :: "'d ConsensusChange \<Rightarrow> Transaction list" where
  "resurrectionCandidates cc =
     filter (\<lambda>txn. ID txn \<notin> appliedIDs cc) (concat (map Transactions (rev (RevertedBlocks cc))))"

text \<open>A singleton admission whose error is ignored.\<close>

definition offer ::
  "('db, 'd) gate \<Rightarrow> 'd ConsensusChange
    \<Rightarrow> ('db, 'd) TransactionPool \<Rightarrow> Transaction \<Rightarrow> ('db, 'd) TransactionPool" where
  "offer accept cc tp txn = snd (accept [txn] (TryTransactionSet cc) tp)"

text \<open>
  The age test as the program computes it: a height is recorded and the difference, in
  64-bit unsigned arithmetic, exceeds \<open>maxTxnAge\<close>.
\<close>

definition stale :: "BlockHeight \<Rightarrow> (TransactionID \<rightharpoonup> BlockHeight) \<Rightarrow> Transaction \<Rightarrow> bool" where
  "stale bh heights txn =
     (case heights (ID txn) of None \<Rightarrow> False | Some h \<Rightarrow> maxTxnAge < bh - h)"

text \<open>
  The age filter over all saved sets, with the heights handed from one set to the next:
  what the indexed loop of the program computes.
\<close>

fun pruneSets ::
  "BlockHeight \<Rightarrow> (TransactionID \<rightharpoonup> BlockHeight) \<Rightarrow> Transaction list list
    \<Rightarrow> (TransactionID \<rightharpoonup> BlockHeight) \<times> Transaction list list" where
  "pruneSets bh heights [] = (heights, [])"
| "pruneSets bh heights (tSet # rest) =
     (case pruneSet bh heights tSet of
        (heights', validTxns) \<Rightarrow>
          (case pruneSets bh heights' rest of
             (heights'', rest') \<Rightarrow> (heights'', validTxns # rest')))"

text \<open>The part of the pool that lives in memory and belongs to the reconciliation.\<close>

definition inMemory ::
  "('db, 'd) TransactionPool \<Rightarrow>
    (ObjectID \<rightharpoonup> TransactionSetID) \<times> (TransactionSetID \<rightharpoonup> Transaction list) \<times>
    (TransactionSetID \<rightharpoonup> 'd) \<times> int \<times> (TransactionID \<rightharpoonup> BlockHeight) \<times> BlockHeight" where
  "inMemory tp =
     (knownObjects tp, transactionSets tp, transactionSetDiffs tp, transactionListSize tp,
      transactionHeights tp, blockHeight tp)"

text \<open>Every field but the block height, the durable store and the log.\<close>

definition besidesMirror ::
  "('db, 'd) TransactionPool \<Rightarrow>
    (ObjectID \<rightharpoonup> TransactionSetID) \<times> (TransactionSetID \<rightharpoonup> Transaction list) \<times>
    (TransactionSetID \<rightharpoonup> 'd) \<times> int \<times> (TransactionID \<rightharpoonup> BlockHeight) \<times> LockMode \<times>
    (TransactionSetID \<rightharpoonup> Transaction list) list" where
  "besidesMirror tp =
     (knownObjects tp, transactionSets tp, transactionSetDiffs tp, transactionListSize tp,
      transactionHeights tp, mu tp, notified tp)"

text \<open>A sequence of changes, each with the order in which its map iteration runs.\<close>

fun processAll ::
  "'db Mirror \<Rightarrow> ('db, 'd) gate \<Rightarrow> (TransactionSetID list \<times> 'd ConsensusChange) list
    \<Rightarrow> ('db, 'd) TransactionPool \<Rightarrow> ('db, 'd) TransactionPool" where
  "processAll M accept [] tp = tp"
| "processAll M accept (c # cs) tp =
     processAll M accept cs (ProcessConsensusChange M accept (fst c) (snd c) tp)"

definition netHeight :: "(TransactionSetID list \<times> 'd ConsensusChange) list \<Rightarrow> int" where
  "netHeight cs =
     (\<Sum>c\<leftarrow>cs. int (length (AppliedBlocks (snd c))) - int (length (RevertedBlocks (snd c))))"

subsection \<open>What is assumed of the admission gate\<close>

text \<open>
  The gate adds no set to the pool but the one it is offered; a refusal leaves the pool
  as it was; the gate leaves the block height alone; and what it does to the in-memory
  state depends on the in-memory state only. All four are stated for singleton sets, the
  only ones the reconciliation offers.
\<close>

definition gateRecordsOffered :: "('db, 'd) gate \<Rightarrow> bool" where
  "gateRecordsOffered accept \<longleftrightarrow>
     (\<forall>txn try tp. ran (transactionSets (snd (accept [txn] try tp)))
                     \<subseteq> insert [txn] (ran (transactionSets tp)))"

definition gateFailsCleanly :: "('db, 'd) gate \<Rightarrow> bool" where
  "gateFailsCleanly accept \<longleftrightarrow>
     (\<forall>txn try tp. fst (accept [txn] try tp) \<noteq> None \<longrightarrow> snd (accept [txn] try tp) = tp)"

definition gateKeepsHeight :: "('db, 'd) gate \<Rightarrow> bool" where
  "gateKeepsHeight accept \<longleftrightarrow>
     (\<forall>txn try tp. blockHeight (snd (accept [txn] try tp)) = blockHeight tp)"

definition gateIgnoresMirror :: "('db, 'd) gate \<Rightarrow> bool" where
  "gateIgnoresMirror accept \<longleftrightarrow>
     (\<forall>txn try tp tp'. inMemory tp = inMemory tp' \<longrightarrow>
        fst (accept [txn] try tp) = fst (accept [txn] try tp') \<and>
        inMemory (snd (accept [txn] try tp)) = inMemory (snd (accept [txn] try tp')))"

section \<open>Concrete instances\<close>

text \<open>
  Modelled from the spec: \<^verbatim>\<open>acceptTransactionSet\<close> is defined in another file of the
  package. On success it claims the objects of the set, records the set and its diff,
  updates the size counter and records the first-seen height of the transactions that
  have none; on failure it leaves the state unchanged and returns an error. A set is
  refused when the validation capability refuses it or when it claims an object that a
  pooled set claims already.
\<close>

definition setID :: "Transaction list \<Rightarrow> TransactionSetID" where
  "setID ts = foldl (\<lambda>n txn. 31 * n + ID txn + 1) 0 ts"

definition acceptTransactionSet :: "('db, 'd) gate" where
  "acceptTransactionSet ts try tp =
     (case try ts of
        Inl err \<Rightarrow> (Some err, tp)
      | Inr diff \<Rightarrow>
          if \<exists>oid \<in> set (concat (map objects ts)). knownObjects tp oid \<noteq> None
          then (Some ''conflict'', tp)
          else (None,
                tp\<lparr>knownObjects :=
                     foldl (\<lambda>m oid. m(oid \<mapsto> setID ts)) (knownObjects tp) (concat (map objects ts)),
                   transactionSets := (transactionSets tp)(setID ts \<mapsto> ts),
                   transactionSetDiffs := (transactionSetDiffs tp)(setID ts \<mapsto> diff),
                   transactionListSize := transactionListSize tp + int (length ts),
                   transactionHeights :=
                     foldl (\<lambda>h txn. if h (ID txn) = None then h(ID txn \<mapsto> blockHeight tp) else h)
                       (transactionHeights tp) ts\<rparr>))"

text \<open>A gate that refuses every set but a singleton, and treats singletons as above.\<close>

definition singletonGate :: "('db, 'd) gate" where
  "singletonGate ts try tp =
     (if length ts = 1 then acceptTransactionSet ts try tp else (Some ''not a singleton'', tp))"

text \<open>A durable store that journals every write, and one on which every write fails.\<close>

definition journal :: "nat list Mirror" where
  "journal = \<lparr>deleteTransaction = (\<lambda>db tid. (None, db @ [tid])),
              addTransaction = (\<lambda>db tid. (None, db @ [tid])),
              putRecentConsensusChange = (\<lambda>db c. (None, db @ [c])),
              putBlockHeight = (\<lambda>db h. (None, db @ [unat h]))\<rparr>"

definition broken :: "nat list Mirror" where
  "broken = \<lparr>deleteTransaction = (\<lambda>db tid. (Some ''read-only'', db)),
             addTransaction = (\<lambda>db tid. (Some ''read-only'', db)),
             putRecentConsensusChange = (\<lambda>db c. (Some ''read-only'', db)),
             putBlockHeight = (\<lambda>db h. (Some ''read-only'', db))\<rparr>"

definition emptyPool :: "(nat list, unit) TransactionPool" where
  "emptyPool = \<lparr>knownObjects = Map.empty, transactionSets = Map.empty,
                transactionSetDiffs = Map.empty, transactionListSize = 0, blockHeight = 0,
                transactionHeights = Map.empty, dbTx = [], log = [], mu = Unlocked,
                notified = []\<rparr>"

definition emptyBlock :: Block where
  "emptyBlock = \<lparr>Transactions = []\<rparr>"

definition txA :: Transaction where
  "txA = Transaction 1 [10]"

definition txB :: Transaction where
  "txB = Transaction 2 [20]"

definition txC :: Transaction where
  "txC = Transaction 3 [30]"

definition txD :: Transaction where
  "txD = Transaction 4 [40]"

text \<open>A pool at height 10 that holds the set \<open>[txA, txB]\<close>, both first seen at height 10.\<close>

definition pooledAB :: "(nat list, unit) TransactionPool" where
  "pooledAB = emptyPool\<lparr>knownObjects := [10 \<mapsto> 7, 20 \<mapsto> 7],
                        transactionSets := [7 \<mapsto> [txA, txB]],
                        transactionSetDiffs := [7 \<mapsto> ()],
                        transactionListSize := 2, blockHeight := 10,
                        transactionHeights := [1 \<mapsto> 10, 2 \<mapsto> 10]\<rparr>"

definition acceptAll :: "Transaction list \<Rightarrow> error + unit" where
  "acceptAll ts = Inr ()"

definition rejectAll :: "Transaction list \<Rightarrow> error + unit" where
  "rejectAll ts = Inl ''invalid''"

text \<open>
  A change that reverts two blocks, the later one holding \<open>txC\<close> and the earlier one
  \<open>txD\<close> and \<open>txB\<close>, and applies a block holding \<open>txB\<close>.
\<close>

definition swapChange :: "unit ConsensusChange" where
  "swapChange = \<lparr>ccID = 1,
                 RevertedBlocks = [\<lparr>Transactions = [txC]\<rparr>, \<lparr>Transactions = [txD, txB]\<rparr>],
                 AppliedBlocks = [\<lparr>Transactions = [txB]\<rparr>], TryTransactionSet = acceptAll\<rparr>"

text \<open>A change that reverts three empty blocks and applies one: the height drops by two.\<close>

definition shorterChain :: "unit ConsensusChange" where
  "shorterChain = \<lparr>ccID = 2, RevertedBlocks = [emptyBlock, emptyBlock, emptyBlock],
                   AppliedBlocks = [emptyBlock], TryTransactionSet = acceptAll\<rparr>"

text \<open>A change that reverts one empty block and applies none.\<close>

definition revertOne :: "unit ConsensusChange" where
  "revertOne = \<lparr>ccID = 3, RevertedBlocks = [emptyBlock], AppliedBlocks = [],
                TryTransactionSet = acceptAll\<rparr>"

text \<open>A change that reverts nothing and applies four blocks, the second holding \<open>txC\<close>.\<close>

definition growChange :: "unit ConsensusChange" where
  "growChange = \<lparr>ccID = 4, RevertedBlocks = [],
                 AppliedBlocks = [emptyBlock, \<lparr>Transactions = [txC]\<rparr>, emptyBlock, emptyBlock],
                 TryTransactionSet = acceptAll\<rparr>"

text \<open>
  The pool reached from the empty pool by processing \<open>growChange\<close> (height 4) and
  then admitting \<open>[txA]\<close> through the gate, which records height 4 for it.
\<close>

definition admittedA :: "(nat list, unit) TransactionPool" where
  "admittedA =
     snd (acceptTransactionSet [txA] acceptAll
            (ProcessConsensusChange journal acceptTransactionSet [] growChange emptyPool))"

section \<open>purge\<close>

lemma purge_fields [simp]:
  "knownObjects (purge tp) = Map.empty"
  "transactionSets (purge tp) = Map.empty"
  "transactionSetDiffs (purge tp) = Map.empty"
  "transactionListSize (purge tp) = 0"
  "transactionHeights (purge tp) = transactionHeights tp"
  "blockHeight (purge tp) = blockHeight tp"
  "dbTx (purge tp) = dbTx tp"
  "log (purge tp) = log tp"
  "mu (purge tp) = mu tp"
  "notified (purge tp) = notified tp"
  by (simp_all add: purge_def)

text \<open>
  Claim C6. \<^verbatim>\<open>purge\<close> empties the object-claim map, the transaction-set map and the diff
  map and sets the size counter to zero; it leaves the transaction heights and the block
  height as they are, and purging twice is purging once. \<^verbatim>\<open>PurgeTransactionPool\<close> does
  this reset while the lock is held exclusively and releases the lock: apart from the
  lock it yields the purged pool, so the durable store, the log and the notifications
  handed to subscribers are what they were.
\<close>

theorem purge_resets_and_keeps_heights:
  "knownObjects (purge tp) = Map.empty \<and> transactionSets (purge tp) = Map.empty \<and>
   transactionSetDiffs (purge tp) = Map.empty \<and> transactionListSize (purge tp) = 0 \<and>
   transactionHeights (purge tp) = transactionHeights tp \<and>
   blockHeight (purge tp) = blockHeight tp \<and>
   purge (purge tp) = purge tp \<and>
   mu (mu_Lock tp) = Exclusive \<and>
   PurgeTransactionPool tp = (purge tp)\<lparr>mu := Unlocked\<rparr> \<and>
   (mu tp = Unlocked \<longrightarrow> PurgeTransactionPool tp = purge tp) \<and>
   dbTx (PurgeTransactionPool tp) = dbTx tp \<and> log (PurgeTransactionPool tp) = log tp \<and>
   notified (PurgeTransactionPool tp) = notified tp \<and>
   transactionHeights (PurgeTransactionPool tp) = transactionHeights tp \<and>
   blockHeight (PurgeTransactionPool tp) = blockHeight tp"
  by (cases tp) (simp add: purge_def PurgeTransactionPool_def mu_Lock_def mu_Unlock_def)

theorem purge_resets_and_keeps_heights_witness:
  "mu pooledAB = Unlocked \<and> PurgeTransactionPool pooledAB = purge pooledAB \<and>
   transactionSets (PurgeTransactionPool pooledAB) = Map.empty \<and>
   transactionHeights (PurgeTransactionPool pooledAB) 1 = Some 10 \<and>
   blockHeight (PurgeTransactionPool pooledAB) = 10"
  using purge_resets_and_keeps_heights [of pooledAB]
  by (simp add: pooledAB_def emptyPool_def)

section \<open>Lemmas about the phases of the reconciliation\<close>

subsection \<open>The database phase changes the height, the store and the log only\<close>

lemma logError_besides [simp]:
  "besidesMirror (logError msg err tp) = besidesMirror tp"
  "blockHeight (logError msg err tp) = blockHeight tp"
  by (cases err; simp add: logError_def besidesMirror_def)+

lemma revertTxn_besides [simp]:
  "besidesMirror (revertTxn M tp txn) = besidesMirror tp"
  "blockHeight (revertTxn M tp txn) = blockHeight tp"
  by (simp_all add: revertTxn_def split: prod.splits) (simp add: besidesMirror_def)

lemma applyTxn_besides [simp]:
  "besidesMirror (applyTxn M tp txn) = besidesMirror tp"
  "blockHeight (applyTxn M tp txn) = blockHeight tp"
  by (simp_all add: applyTxn_def split: prod.splits) (simp add: besidesMirror_def)

lemma foldl_preserves:
  assumes "\<And>s x. P (f s x) = P s"
  shows "P (foldl f s xs) = P s"
  by (induction xs arbitrary: s) (simp_all add: assms)

lemma revertBlock_besides [simp]:
  "besidesMirror (revertBlock M tp b) = besidesMirror tp"
  "blockHeight (revertBlock M tp b) = blockHeight tp - 1"
  by (simp_all add: revertBlock_def foldl_preserves [where P = besidesMirror]
      foldl_preserves [where P = blockHeight]) (simp add: besidesMirror_def)

lemma applyBlock_besides [simp]:
  "besidesMirror (applyBlock M tp b) = besidesMirror tp"
  "blockHeight (applyBlock M tp b) = blockHeight tp + 1"
  by (simp_all add: applyBlock_def foldl_preserves [where P = besidesMirror]
      foldl_preserves [where P = blockHeight]) (simp add: besidesMirror_def)

lemma foldl_revertBlock_height:
  "blockHeight (foldl (revertBlock M) tp bs) = blockHeight tp - of_nat (length bs)"
  by (induction bs arbitrary: tp) simp_all

lemma foldl_applyBlock_height:
  "blockHeight (foldl (applyBlock M) tp bs) = blockHeight tp + of_nat (length bs)"
  by (induction bs arbitrary: tp) simp_all

lemma recordChange_besides [simp]:
  "besidesMirror (recordChange M c tp) = besidesMirror tp"
  "blockHeight (recordChange M c tp) = blockHeight tp"
  by (simp_all add: recordChange_def split: prod.splits) (simp add: besidesMirror_def)

lemma recordHeight_besides [simp]:
  "besidesMirror (recordHeight M tp) = besidesMirror tp"
  "blockHeight (recordHeight M tp) = blockHeight tp"
  by (simp_all add: recordHeight_def split: prod.splits) (simp add: besidesMirror_def)

lemma updateDatabase_besides:
  "besidesMirror (updateDatabase M cc tp) = besidesMirror tp"
  by (simp add: updateDatabase_def foldl_preserves [where P = besidesMirror])

lemma updateDatabase_height:
  "blockHeight (updateDatabase M cc tp) =
     blockHeight tp - of_nat (length (RevertedBlocks cc)) + of_nat (length (AppliedBlocks cc))"
  by (simp add: updateDatabase_def foldl_revertBlock_height foldl_applyBlock_height)

lemma updateDatabase_fields [simp]:
  "knownObjects (updateDatabase M cc tp) = knownObjects tp"
  "transactionSets (updateDatabase M cc tp) = transactionSets tp"
  "transactionSetDiffs (updateDatabase M cc tp) = transactionSetDiffs tp"
  "transactionListSize (updateDatabase M cc tp) = transactionListSize tp"
  "transactionHeights (updateDatabase M cc tp) = transactionHeights tp"
  "mu (updateDatabase M cc tp) = mu tp"
  "notified (updateDatabase M cc tp) = notified tp"
  using updateDatabase_besides [of M cc tp] by (simp_all add: besidesMirror_def)


subsection \<open>The confirmed identifiers and the saved sets\<close>

lemma foldl_insert_ID:
  "foldl (\<lambda>txids txn. insert (ID txn) txids) s ts = s \<union> ID ` set ts"
  by (induction ts arbitrary: s) auto

lemma scanApplied_appliedIDs: "scanApplied cc = appliedIDs cc"
proof -
  have "foldl (\<lambda>txids block. foldl (\<lambda>txids txn. insert (ID txn) txids) txids (Transactions block))
          s bs = s \<union> ID ` set (concat (map Transactions bs))" for s and bs :: "Block list"
    by (induction bs arbitrary: s) (auto simp: foldl_insert_ID)
  then show ?thesis by (simp add: scanApplied_def appliedIDs_def)
qed

lemma stripConfirmed_filter:
  "stripConfirmed txids tSet = filter (\<lambda>txn. ID txn \<notin> txids) tSet"
proof -
  have "foldl (\<lambda>newTSet txn. if ID txn \<in> txids then newTSet else newTSet @ [txn]) acc tSet
          = acc @ filter (\<lambda>txn. ID txn \<notin> txids) tSet" for acc
    by (induction tSet arbitrary: acc) auto
  then show ?thesis by (simp add: stripConfirmed_def)
qed

lemma saveUnconfirmed_map:
  "saveUnconfirmed txids order tp =
     map (\<lambda>k. filter (\<lambda>txn. ID txn \<notin> txids)
                 (case transactionSets tp k of Some tSet \<Rightarrow> tSet | None \<Rightarrow> [])) order"
proof -
  have "foldl (\<lambda>unconfirmedSets k. unconfirmedSets @ [g k]) acc ks = acc @ map g ks"
    for acc :: "Transaction list list" and g and ks :: "TransactionSetID list"
    by (induction ks arbitrary: acc) auto
  then show ?thesis by (simp add: saveUnconfirmed_def stripConfirmed_filter)
qed

subsection \<open>The age filter\<close>

lemma foldl_pruneTxn_acc:
  "foldl (pruneTxn bh) (h, acc) ts = (fst (pruneSet bh h ts), acc @ snd (pruneSet bh h ts))"
proof -
  have "foldl (pruneTxn bh) (h, acc @ acc') ts
        = (fst (foldl (pruneTxn bh) (h, acc') ts), acc @ snd (foldl (pruneTxn bh) (h, acc') ts))"
    for acc'
    by (induction ts arbitrary: h acc') (auto simp: pruneTxn_def split: option.splits)
  from this [of "[]"] show ?thesis by (simp add: pruneSet_def)
qed

lemma pruneTxn_stale:
  "pruneTxn bh (h, acc) txn =
     (if stale bh h txn then (h(ID txn := None), acc) else (h, acc @ [txn]))"
  by (auto simp: pruneTxn_def stale_def not_le split: option.splits)

lemma pruneSet_Nil [simp]: "pruneSet bh h [] = (h, [])"
  by (simp add: pruneSet_def)

lemma pruneSet_Cons:
  "pruneSet bh h (txn # ts) =
     (if stale bh h txn
      then pruneSet bh (h(ID txn := None)) ts
      else (fst (pruneSet bh h ts), txn # snd (pruneSet bh h ts)))"
proof -
  have "pruneSet bh h (txn # ts) = foldl (pruneTxn bh) (pruneTxn bh (h, []) txn) ts"
    by (simp add: pruneSet_def)
  then show ?thesis
    by (simp add: pruneTxn_stale foldl_pruneTxn_acc)
qed

lemma pruneSets_Cons:
  "pruneSets bh h (s # ss) =
     (fst (pruneSets bh (fst (pruneSet bh h s)) ss),
      snd (pruneSet bh h s) # snd (pruneSets bh (fst (pruneSet bh h s)) ss))"
  by (simp add: case_prod_beta)

lemma pruneOld_pruneSets_aux:
  "foldl (pruneAt bh) (h, done @ us) [length done ..< length done + length us]
     = (fst (pruneSets bh h us), done @ snd (pruneSets bh h us))"
proof (induction us arbitrary: h "done")
  case Nil
  show ?case by simp
next
  case (Cons s ss)
  let ?h = "fst (pruneSet bh h s)" and ?v = "snd (pruneSet bh h s)"
  let ?n = "length done"
  have "[?n ..< ?n + length (s # ss)] = ?n # [Suc ?n ..< Suc ?n + length ss]"
    by (subst upt_rec) simp
  moreover have "pruneAt bh (h, done @ s # ss) ?n = (?h, (done @ [?v]) @ ss)"
    by (simp add: pruneAt_def case_prod_beta)
  ultimately have "foldl (pruneAt bh) (h, done @ s # ss) [?n ..< ?n + length (s # ss)]
       = foldl (pruneAt bh) (?h, (done @ [?v]) @ ss)
           [length (done @ [?v]) ..< length (done @ [?v]) + length ss]"
    by simp
  also have "\<dots> = (fst (pruneSets bh ?h ss), (done @ [?v]) @ snd (pruneSets bh ?h ss))"
    by (rule Cons.IH)
  finally have F: "foldl (pruneAt bh) (h, done @ s # ss) [?n ..< ?n + length (s # ss)]
       = (fst (pruneSets bh ?h ss), (done @ [?v]) @ snd (pruneSets bh ?h ss))" .
  show ?case
    by (simp only: F pruneSets_Cons fst_conv snd_conv append_assoc append_Cons append_Nil)
qed

lemma pruneOld_pruneSets:
  "pruneOld tp us =
     (tp\<lparr>transactionHeights := fst (pruneSets (blockHeight tp) (transactionHeights tp) us)\<rparr>,
      snd (pruneSets (blockHeight tp) (transactionHeights tp) us))"
  using pruneOld_pruneSets_aux [of "blockHeight tp" "transactionHeights tp" "[]" us]
  by (simp add: pruneOld_def case_prod_beta)

lemma pruneSet_subset: "set (snd (pruneSet bh h ts)) \<subseteq> set ts"
  by (induction ts arbitrary: h) (auto simp: pruneSet_Cons)

lemma pruneSets_subset: "set (concat (snd (pruneSets bh h us))) \<subseteq> set (concat us)"
proof (induction us arbitrary: h)
  case Nil
  show ?case by simp
next
  case (Cons s ss)
  have "set (snd (pruneSet bh h s)) \<subseteq> set s" by (rule pruneSet_subset)
  moreover have "set (concat (snd (pruneSets bh (fst (pruneSet bh h s)) ss))) \<subseteq> set (concat ss)"
    by (rule Cons.IH)
  ultimately show ?case unfolding pruneSets_Cons by (simp add: le_supI1 le_supI2)
qed

lemma stale_forget:
  "ID t' \<noteq> ID t \<Longrightarrow> stale bh (h(ID t := None)) t' = stale bh h t'"
  by (simp add: stale_def)

lemma pruneSet_distinct:
  assumes "distinct (map ID ts)"
  shows "pruneSet bh h ts =
           ((\<lambda>i. if \<exists>t \<in> set ts. ID t = i \<and> stale bh h t then None else h i),
            filter (\<lambda>t. \<not> stale bh h t) ts)"
  using assms
proof (induction ts arbitrary: h)
  case Nil
  show ?case by simp
next
  case (Cons t ts)
  from Cons.prems have d: "distinct (map ID ts)" and "ID t \<notin> ID ` set ts"
    by simp_all
  then have n: "ID t' \<noteq> ID t" if "t' \<in> set ts" for t'
    using that by (metis imageI)
  show ?case
  proof (cases "stale bh h t")
    case True
    have f: "filter (\<lambda>t'. \<not> stale bh (h(ID t := None)) t') ts = filter (\<lambda>t'. \<not> stale bh h t') ts"
      by (rule filter_cong) (simp_all add: stale_forget n)
    have m: "(\<lambda>i. if \<exists>t' \<in> set ts. ID t' = i \<and> stale bh (h(ID t := None)) t' then None
                   else (h(ID t := None)) i)
           = (\<lambda>i. if \<exists>t' \<in> set (t # ts). ID t' = i \<and> stale bh h t' then None else h i)"
      using True n by (intro ext) (auto simp: stale_forget)
    have "pruneSet bh h (t # ts) = pruneSet bh (h(ID t := None)) ts"
      by (simp only: pruneSet_Cons True if_True)
    also have "\<dots> =
        ((\<lambda>i. if \<exists>t' \<in> set ts. ID t' = i \<and> stale bh (h(ID t := None)) t' then None
              else (h(ID t := None)) i),
         filter (\<lambda>t'. \<not> stale bh (h(ID t := None)) t') ts)"
      by (rule Cons.IH [OF d])
    also have "\<dots> =
        ((\<lambda>i. if \<exists>t' \<in> set (t # ts). ID t' = i \<and> stale bh h t' then None else h i),
         filter (\<lambda>t'. \<not> stale bh h t') ts)"
      by (simp only: f m)
    finally show ?thesis using True by simp
  next
    case False
    have m: "(\<lambda>i. if \<exists>t' \<in> set ts. ID t' = i \<and> stale bh h t' then None else h i)
           = (\<lambda>i. if \<exists>t' \<in> set (t # ts). ID t' = i \<and> stale bh h t' then None else h i)"
      using False by (intro ext) auto
    have "pruneSet bh h (t # ts) = (fst (pruneSet bh h ts), t # snd (pruneSet bh h ts))"
      by (simp only: pruneSet_Cons False if_False)
    also have "pruneSet bh h ts =
        ((\<lambda>i. if \<exists>t' \<in> set ts. ID t' = i \<and> stale bh h t' then None else h i),
         filter (\<lambda>t'. \<not> stale bh h t') ts)"
      by (rule Cons.IH [OF d])
    finally have "pruneSet bh h (t # ts) =
        ((\<lambda>i. if \<exists>t' \<in> set (t # ts). ID t' = i \<and> stale bh h t' then None else h i),
         t # filter (\<lambda>t'. \<not> stale bh h t') ts)"
      by (simp only: fst_conv snd_conv m)
    then show ?thesis using False by simp
  qed
qed

lemma pruneSets_distinct:
  assumes "distinct (map ID (concat us))"
  shows "pruneSets bh h us =
           ((\<lambda>i. if \<exists>t \<in> set (concat us). ID t = i \<and> stale bh h t then None else h i),
            map (filter (\<lambda>t. \<not> stale bh h t)) us)"
  using assms
proof (induction us arbitrary: h)
  case Nil
  show ?case by simp
next
  case (Cons s ss)
  let ?h = "\<lambda>i. if \<exists>t \<in> set s. ID t = i \<and> stale bh h t then None else h i"
  from Cons.prems have ds: "distinct (map ID s)" and dss: "distinct (map ID (concat ss))"
    and "ID ` set s \<inter> ID ` set (concat ss) = {}"
    by simp_all
  then have n: "ID t \<noteq> ID t'" if "t \<in> set s" "t' \<in> set (concat ss)" for t t'
    using that by (metis imageI disjoint_iff)
  have p: "pruneSet bh h s = (?h, filter (\<lambda>t. \<not> stale bh h t) s)"
    by (rule pruneSet_distinct [OF ds])
  have st: "stale bh ?h t' = stale bh h t'" if "t' \<in> set (concat ss)" for t'
    using n [OF _ that] by (auto simp: stale_def)
  have f: "map (filter (\<lambda>t. \<not> stale bh ?h t)) ss = map (filter (\<lambda>t. \<not> stale bh h t)) ss"
    by (rule map_cong [OF refl], rule filter_cong [OF refl]) (use st in auto)
  have m: "(\<lambda>i. if \<exists>t \<in> set (concat ss). ID t = i \<and> stale bh ?h t then None else ?h i)
         = (\<lambda>i. if \<exists>t \<in> set (concat (s # ss)). ID t = i \<and> stale bh h t then None else h i)"
  proof (intro ext)
    fix i
    have "(\<exists>t \<in> set (concat ss). ID t = i \<and> stale bh ?h t)
            = (\<exists>t \<in> set (concat ss). ID t = i \<and> stale bh h t)"
      using st by blast
    then show "(if \<exists>t \<in> set (concat ss). ID t = i \<and> stale bh ?h t then None else ?h i)
         = (if \<exists>t \<in> set (concat (s # ss)). ID t = i \<and> stale bh h t then None else h i)"
      by auto
  qed
  have "pruneSets bh h (s # ss) =
          (fst (pruneSets bh ?h ss), filter (\<lambda>t. \<not> stale bh h t) s # snd (pruneSets bh ?h ss))"
    by (simp only: pruneSets_Cons p fst_conv snd_conv)
  also have "pruneSets bh ?h ss =
      ((\<lambda>i. if \<exists>t \<in> set (concat ss). ID t = i \<and> stale bh ?h t then None else ?h i),
       map (filter (\<lambda>t. \<not> stale bh ?h t)) ss)"
    by (rule Cons.IH [OF dss])
  finally show ?case
    by (simp only: fst_conv snd_conv f m list.map)
qed

lemma stale_uint:
  "stale bh h txn \<longleftrightarrow> (\<exists>H. h (ID txn) = Some H \<and> 12 < uint (bh - H))"
  by (cases "h (ID txn)") (simp_all add: stale_def maxTxnAge_def word_less_def)

lemma uint_wrapped:
  fixes bh H :: BlockHeight
  assumes "bh < H"
  shows "uint (bh - H) = 2 ^ 64 - (uint H - uint bh)"
  using assms by (simp add: uint_sub_if' word_less_def)

lemma age_test_without_wrap:
  fixes bh H :: BlockHeight
  assumes "h (ID txn) = Some H" and "H \<le> bh"
  shows "stale bh h txn \<longleftrightarrow> 12 < uint bh - uint H"
  using assms by (simp add: stale_uint uint_sub_if' word_le_def)

subsection \<open>Resurrection\<close>

lemma resurrectFrom_take:
  "i \<le> length (RevertedBlocks cc) \<Longrightarrow>
     resurrectFrom i accept cc txids tp =
       foldl (resurrectTxn accept cc txids) tp
         (concat (map Transactions (rev (take i (RevertedBlocks cc)))))"
proof (induction i arbitrary: tp)
  case 0
  show ?case by simp
next
  case (Suc i)
  then have "i < length (RevertedBlocks cc)" by simp
  then have "take (Suc i) (RevertedBlocks cc) = take i (RevertedBlocks cc) @ [RevertedBlocks cc ! i]"
    by (rule take_Suc_conv_app_nth)
  with Suc show ?case by simp
qed

lemma foldl_resurrectTxn_filter:
  "foldl (resurrectTxn accept cc txids) tp ts
     = foldl (offer accept cc) tp (filter (\<lambda>txn. ID txn \<notin> txids) ts)"
  by (induction ts arbitrary: tp) (simp_all add: resurrectTxn_def offer_def)

lemma resurrect_candidates:
  "resurrect accept cc (scanApplied cc) tp = foldl (offer accept cc) tp (resurrectionCandidates cc)"
  by (simp add: resurrect_def resurrectFrom_take foldl_resurrectTxn_filter
      resurrectionCandidates_def scanApplied_appliedIDs)

subsection \<open>Re-admission\<close>

lemma readmit_concat:
  "readmit accept cc us tp = foldl (readmitTxn accept cc) tp (concat us)"
proof -
  have "foldl (\<lambda>tp tSet. foldl f tp tSet) tp us = foldl f tp (concat us)"
    for f :: "('a, 'b) TransactionPool \<Rightarrow> Transaction \<Rightarrow> ('a, 'b) TransactionPool"
    by (induction us arbitrary: tp) simp_all
  then show ?thesis by (simp add: readmit_def)
qed


subsection \<open>The block height\<close>

lemma pruneOld_fields [simp]:
  "blockHeight (fst (pruneOld tp us)) = blockHeight tp"
  "knownObjects (fst (pruneOld tp us)) = knownObjects tp"
  "transactionSets (fst (pruneOld tp us)) = transactionSets tp"
  "transactionSetDiffs (fst (pruneOld tp us)) = transactionSetDiffs tp"
  "transactionListSize (fst (pruneOld tp us)) = transactionListSize tp"
  by (simp_all add: pruneOld_pruneSets)

lemma reconcile_unfold:
  "reconcile M accept order cc tp =
     foldl (readmitTxn accept cc)
       (foldl (offer accept cc)
          (fst (pruneOld (purge (updateDatabase M cc tp))
                  (saveUnconfirmed (scanApplied cc) order (updateDatabase M cc tp))))
          (resurrectionCandidates cc))
       (concat (snd (pruneOld (purge (updateDatabase M cc tp))
                  (saveUnconfirmed (scanApplied cc) order (updateDatabase M cc tp)))))"
  by (simp add: reconcile_def Let_def case_prod_beta readmit_concat resurrect_candidates)

lemma offer_height: "gateKeepsHeight accept \<Longrightarrow> blockHeight (offer accept cc tp txn) = blockHeight tp"
  by (simp add: gateKeepsHeight_def offer_def)

lemma readmitTxn_height:
  "gateKeepsHeight accept \<Longrightarrow> blockHeight (readmitTxn accept cc tp txn) = blockHeight tp"
  by (cases "accept [txn] (TryTransactionSet cc) tp")
     (auto simp: gateKeepsHeight_def readmitTxn_def split: option.splits
        dest: arg_cong [where f = "\<lambda>r. blockHeight (snd r)"])

lemma reconcile_height:
  assumes "gateKeepsHeight accept"
  shows "blockHeight (reconcile M accept order cc tp) =
           blockHeight tp - of_nat (length (RevertedBlocks cc)) + of_nat (length (AppliedBlocks cc))"
  by (simp add: reconcile_unfold updateDatabase_height
      foldl_preserves [where P = blockHeight and f = "readmitTxn accept cc", OF readmitTxn_height [OF assms]]
      foldl_preserves [where P = blockHeight and f = "offer accept cc", OF offer_height [OF assms]])

lemma ProcessConsensusChange_height:
  assumes "gateKeepsHeight accept"
  shows "blockHeight (ProcessConsensusChange M accept order cc tp) =
           blockHeight tp - of_nat (length (RevertedBlocks cc)) + of_nat (length (AppliedBlocks cc))"
  by (simp add: ProcessConsensusChange_def mu_DemotedUnlock_def updateSubscribersTransactions_def
      mu_Demote_def reconcile_height [OF assms] mu_Lock_def)

lemma processAll_height:
  assumes "gateKeepsHeight accept"
  shows "blockHeight (processAll M accept cs tp) = blockHeight tp + word_of_int (netHeight cs)"
proof (induction cs arbitrary: tp)
  case Nil
  show ?case by (simp add: netHeight_def)
next
  case (Cons c cs)
  have "netHeight (c # cs) =
          int (length (AppliedBlocks (snd c))) - int (length (RevertedBlocks (snd c))) + netHeight cs"
    by (simp add: netHeight_def)
  then show ?case
    by (simp add: Cons.IH ProcessConsensusChange_height [OF assms])
qed

subsection \<open>The phases in sequence\<close>

lemma reconcile_phases:
  "reconcile M accept order cc tp =
     readmit accept cc
       (snd (pruneOld (purge (updateDatabase M cc tp))
               (saveUnconfirmed (scanApplied cc) order (updateDatabase M cc tp))))
       (resurrect accept cc (scanApplied cc)
          (fst (pruneOld (purge (updateDatabase M cc tp))
                  (saveUnconfirmed (scanApplied cc) order (updateDatabase M cc tp)))))"
  by (simp add: reconcile_def Let_def case_prod_beta)

lemma candidates_iff:
  "txn \<in> set (resurrectionCandidates cc) \<longleftrightarrow>
     ID txn \<notin> appliedIDs cc \<and> (\<exists>b \<in> set (RevertedBlocks cc). txn \<in> set (Transactions b))"
  by (auto simp: resurrectionCandidates_def)

lemma foldl_offer_atomic:
  assumes "gateFailsCleanly accept"
  shows "foldl (offer accept cc) tp ts =
           foldl (\<lambda>s txn. if fst (accept [txn] (TryTransactionSet cc) s) = None
                           then snd (accept [txn] (TryTransactionSet cc) s) else s) tp ts"
proof -
  have "offer accept cc = (\<lambda>s txn. if fst (accept [txn] (TryTransactionSet cc) s) = None
                           then snd (accept [txn] (TryTransactionSet cc) s) else s)"
    using assms by (intro ext) (simp add: offer_def gateFailsCleanly_def)
  then show ?thesis by simp
qed

lemma readmitTxn_cases:
  "readmitTxn accept cc s txn =
     (if fst (accept [txn] (TryTransactionSet cc) s) = None
      then snd (accept [txn] (TryTransactionSet cc) s)
      else (snd (accept [txn] (TryTransactionSet cc) s))
             \<lparr>transactionHeights :=
                (transactionHeights (snd (accept [txn] (TryTransactionSet cc) s)))(ID txn := None)\<rparr>)"
  by (cases "accept [txn] (TryTransactionSet cc) s") (auto simp: readmitTxn_def split: option.splits)

text \<open>
  After the reconciliation the lock is demoted, the subscribers are handed the
  transaction sets of the reconciled pool, and the lock is released.
\<close>

lemma ProcessConsensusChange_publishes:
  "mu (ProcessConsensusChange M accept order cc tp) = Unlocked \<and>
   notified (ProcessConsensusChange M accept order cc tp) =
     notified (reconcile M accept order cc (mu_Lock tp))
       @ [transactionSets (reconcile M accept order cc (mu_Lock tp))] \<and>
   transactionSets (ProcessConsensusChange M accept order cc tp) =
     transactionSets (reconcile M accept order cc (mu_Lock tp))"
  by (simp add: ProcessConsensusChange_def mu_DemotedUnlock_def updateSubscribersTransactions_def
      mu_Demote_def)

subsection \<open>The sets in the pool after the reconciliation\<close>

lemma offer_sets:
  "gateRecordsOffered accept \<Longrightarrow>
     ran (transactionSets (offer accept cc tp txn)) \<subseteq> insert [txn] (ran (transactionSets tp))"
  by (simp add: gateRecordsOffered_def offer_def)

lemma readmitTxn_sets:
  "transactionSets (readmitTxn accept cc tp txn) = transactionSets (offer accept cc tp txn)"
  by (simp add: readmitTxn_cases offer_def)

lemma foldl_sets:
  assumes "\<And>s txn. ran (transactionSets (f s txn)) \<subseteq> insert [txn] (ran (transactionSets s))"
  shows "ran (transactionSets (foldl f tp ts)) \<subseteq> ran (transactionSets tp) \<union> (\<lambda>txn. [txn]) ` set ts"
proof (induction ts arbitrary: tp)
  case Nil
  show ?case by simp
next
  case (Cons t ts)
  have "ran (transactionSets (foldl f (f tp t) ts))
          \<subseteq> ran (transactionSets (f tp t)) \<union> (\<lambda>txn. [txn]) ` set ts"
    by (rule Cons.IH)
  with assms [of tp t] show ?case by auto
qed

lemma reconcile_sets:
  assumes "gateRecordsOffered accept"
  shows "ran (transactionSets (reconcile M accept order cc tp)) \<subseteq>
           (\<lambda>txn. [txn]) ` (set (resurrectionCandidates cc) \<union>
                            set (concat (saveUnconfirmed (scanApplied cc) order tp)))"
proof -
  let ?db = "updateDatabase M cc tp"
  let ?us = "saveUnconfirmed (scanApplied cc) order ?db"
  let ?p = "pruneOld (purge ?db) ?us"
  let ?r = "foldl (offer accept cc) (fst ?p) (resurrectionCandidates cc)"
  have us: "?us = saveUnconfirmed (scanApplied cc) order tp"
    by (simp add: saveUnconfirmed_def)
  have "ran (transactionSets ?r) \<subseteq>
          ran (transactionSets (fst ?p)) \<union> (\<lambda>txn. [txn]) ` set (resurrectionCandidates cc)"
    by (rule foldl_sets) (rule offer_sets [OF assms])
  then have r: "ran (transactionSets ?r) \<subseteq> (\<lambda>txn. [txn]) ` set (resurrectionCandidates cc)"
    by simp
  have "ran (transactionSets (foldl (readmitTxn accept cc) ?r (concat (snd ?p)))) \<subseteq>
          ran (transactionSets ?r) \<union> (\<lambda>txn. [txn]) ` set (concat (snd ?p))"
    by (rule foldl_sets) (simp add: readmitTxn_sets offer_sets [OF assms])
  moreover have "set (concat (snd ?p)) \<subseteq> set (concat ?us)"
    unfolding pruneOld_pruneSets snd_conv by (rule pruneSets_subset)
  ultimately have "ran (transactionSets (reconcile M accept order cc tp)) \<subseteq>
      (\<lambda>txn. [txn]) ` set (resurrectionCandidates cc) \<union> (\<lambda>txn. [txn]) ` set (concat ?us)"
    using r unfolding reconcile_unfold by blast
  then show ?thesis unfolding us by (simp add: image_Un)
qed

lemma ProcessConsensusChange_sets:
  "transactionSets (ProcessConsensusChange M accept order cc tp) =
     transactionSets (reconcile M accept order cc (mu_Lock tp))"
  by (simp add: ProcessConsensusChange_def mu_DemotedUnlock_def updateSubscribersTransactions_def
      mu_Demote_def)

lemma saved_iff:
  "txn \<in> set (concat (saveUnconfirmed (scanApplied cc) order tp)) \<longleftrightarrow>
     ID txn \<notin> appliedIDs cc \<and>
     (\<exists>k \<in> set order. \<exists>tSet. transactionSets tp k = Some tSet \<and> txn \<in> set tSet)"
proof -
  have "txn \<in> set (filter (\<lambda>txn. ID txn \<notin> appliedIDs cc)
                      (case transactionSets tp k of Some tSet \<Rightarrow> tSet | None \<Rightarrow> [])) \<longleftrightarrow>
        ID txn \<notin> appliedIDs cc \<and> (\<exists>tSet. transactionSets tp k = Some tSet \<and> txn \<in> set tSet)"
    for k
    by (cases "transactionSets tp k") auto
  then show ?thesis
    by (simp add: saveUnconfirmed_map scanApplied_appliedIDs)
qed

lemma pooled_after:
  assumes "gateRecordsOffered accept"
    and "s \<in> ran (transactionSets (ProcessConsensusChange M accept order cc tp))"
  shows "\<exists>txn. s = [txn] \<and> ID txn \<notin> appliedIDs cc \<and>
           ((\<exists>b \<in> set (RevertedBlocks cc). txn \<in> set (Transactions b)) \<or>
            (\<exists>k \<in> set order. \<exists>tSet. transactionSets tp k = Some tSet \<and> txn \<in> set tSet))"
proof -
  have "s \<in> (\<lambda>txn. [txn]) ` (set (resurrectionCandidates cc) \<union>
                set (concat (saveUnconfirmed (scanApplied cc) order (mu_Lock tp))))"
    using assms(2) reconcile_sets [OF assms(1), of M order cc "mu_Lock tp"]
    unfolding ProcessConsensusChange_sets by blast
  then obtain txn where "s = [txn]"
    and "txn \<in> set (resurrectionCandidates cc) \<or>
         txn \<in> set (concat (saveUnconfirmed (scanApplied cc) order (mu_Lock tp)))"
    by blast
  then show ?thesis
    unfolding candidates_iff saved_iff by (auto simp: mu_Lock_def)
qed

lemma gate_on_singletons:
  assumes "\<And>txn try s. accept [txn] try s = accept' [txn] try s"
  shows "reconcile M accept order cc tp = reconcile M accept' order cc tp"
proof -
  have "offer accept cc = offer accept' cc"
    by (intro ext) (simp add: offer_def assms)
  moreover have "readmitTxn accept cc = readmitTxn accept' cc"
    by (intro ext) (simp add: readmitTxn_def assms)
  ultimately show ?thesis by (simp add: reconcile_unfold)
qed

subsection \<open>The in-memory state does not depend on the durable store\<close>

lemma foldl_related:
  assumes "\<And>s s' x. R s s' \<Longrightarrow> R (f s x) (g s' x)" and "R a b"
  shows "R (foldl f a xs) (foldl g b xs)"
  using assms(2) by (induction xs arbitrary: a b) (simp_all add: assms(1))

lemma inMemory_updateDatabase:
  "inMemory tp = inMemory tp' \<Longrightarrow>
     inMemory (updateDatabase M cc tp) = inMemory (updateDatabase M' cc tp')"
  by (simp add: inMemory_def updateDatabase_height)

lemma inMemory_purge: "inMemory tp = inMemory tp' \<Longrightarrow> inMemory (purge tp) = inMemory (purge tp')"
  by (simp add: inMemory_def)

lemma inMemory_pruneOld:
  "inMemory tp = inMemory tp' \<Longrightarrow>
     inMemory (fst (pruneOld tp us)) = inMemory (fst (pruneOld tp' us)) \<and>
     snd (pruneOld tp us) = snd (pruneOld tp' us)"
  by (simp add: inMemory_def pruneOld_pruneSets)

lemma gateIgnoresMirrorD:
  assumes "gateIgnoresMirror accept" and "inMemory tp = inMemory tp'"
  shows "fst (accept [txn] try tp) = fst (accept [txn] try tp') \<and>
         inMemory (snd (accept [txn] try tp)) = inMemory (snd (accept [txn] try tp'))"
  by (rule assms(1) [unfolded gateIgnoresMirror_def, rule_format, OF assms(2)])

lemma inMemory_offer:
  "gateIgnoresMirror accept \<Longrightarrow> inMemory s = inMemory s' \<Longrightarrow>
     inMemory (offer accept cc s txn) = inMemory (offer accept cc s' txn)"
  unfolding offer_def by (rule gateIgnoresMirrorD [THEN conjunct2])

lemma inMemory_readmitTxn:
  assumes "gateIgnoresMirror accept" and "inMemory s = inMemory s'"
  shows "inMemory (readmitTxn accept cc s txn) = inMemory (readmitTxn accept cc s' txn)"
proof -
  let ?r = "accept [txn] (TryTransactionSet cc) s" and ?r' = "accept [txn] (TryTransactionSet cc) s'"
  from gateIgnoresMirrorD [OF assms, of txn "TryTransactionSet cc"]
  have "fst ?r = fst ?r'" and "inMemory (snd ?r) = inMemory (snd ?r')"
    by simp_all
  then show ?thesis by (simp add: readmitTxn_cases) (simp add: inMemory_def)
qed

lemma inMemory_reconcile:
  assumes "gateIgnoresMirror accept" and "inMemory tp = inMemory tp'"
  shows "inMemory (reconcile M accept order cc tp) = inMemory (reconcile M' accept order cc tp')"
proof -
  let ?db = "updateDatabase M cc tp" and ?db' = "updateDatabase M' cc tp'"
  let ?us = "saveUnconfirmed (scanApplied cc) order ?db"
  let ?us' = "saveUnconfirmed (scanApplied cc) order ?db'"
  have db: "inMemory ?db = inMemory ?db'" by (rule inMemory_updateDatabase [OF assms(2)])
  have "transactionSets tp = transactionSets tp'" using assms(2) by (simp add: inMemory_def)
  then have us: "?us = ?us'" by (simp add: saveUnconfirmed_def)
  have p: "inMemory (fst (pruneOld (purge ?db) ?us)) = inMemory (fst (pruneOld (purge ?db') ?us'))"
    and q: "snd (pruneOld (purge ?db) ?us) = snd (pruneOld (purge ?db') ?us')"
    unfolding us
    by (rule inMemory_pruneOld [OF inMemory_purge [OF db], THEN conjunct1],
        rule inMemory_pruneOld [OF inMemory_purge [OF db], THEN conjunct2])
  have r: "inMemory (foldl (offer accept cc) (fst (pruneOld (purge ?db) ?us)) (resurrectionCandidates cc))
         = inMemory (foldl (offer accept cc) (fst (pruneOld (purge ?db') ?us')) (resurrectionCandidates cc))"
  proof (rule foldl_related [where R = "\<lambda>s s'. inMemory s = inMemory s'"])
    show "inMemory (offer accept cc s x) = inMemory (offer accept cc s' x)"
      if "inMemory s = inMemory s'" for s s' x
      using assms(1) that by (rule inMemory_offer)
    show "inMemory (fst (pruneOld (purge ?db) ?us)) = inMemory (fst (pruneOld (purge ?db') ?us'))"
      by (rule p)
  qed
  show ?thesis
    unfolding reconcile_unfold q
  proof (rule foldl_related [where R = "\<lambda>s s'. inMemory s = inMemory s'"])
    show "inMemory (readmitTxn accept cc s x) = inMemory (readmitTxn accept cc s' x)"
      if "inMemory s = inMemory s'" for s s' x
      using assms(1) that by (rule inMemory_readmitTxn)
  qed (rule r)
qed

subsection \<open>The modelled admission gate meets the assumptions\<close>

lemma acceptTransactionSet_keeps_height: "gateKeepsHeight acceptTransactionSet"
  by (auto simp: gateKeepsHeight_def acceptTransactionSet_def split: sum.splits)

lemma acceptTransactionSet_records_offered: "gateRecordsOffered acceptTransactionSet"
  by (auto simp: gateRecordsOffered_def acceptTransactionSet_def ran_def split: sum.splits if_splits)

lemma acceptTransactionSet_fails_cleanly: "gateFailsCleanly acceptTransactionSet"
  by (auto simp: gateFailsCleanly_def acceptTransactionSet_def split: sum.splits)

lemma acceptTransactionSet_ignores_mirror: "gateIgnoresMirror acceptTransactionSet"
  by (auto simp: gateIgnoresMirror_def acceptTransactionSet_def inMemory_def split: sum.splits)

subsection \<open>A pooled pair of transactions after four more blocks\<close>

lemma growth_sets:
  "transactionSets (ProcessConsensusChange journal acceptTransactionSet [7] growChange pooledAB)
     = [setID [txA] \<mapsto> [txA], setID [txB] \<mapsto> [txB]]"
  by (simp add: ProcessConsensusChange_sets reconcile_unfold pruneOld_pruneSets pruneSet_Cons
      stale_def saveUnconfirmed_map scanApplied_appliedIDs appliedIDs_def resurrectionCandidates_def
      growChange_def pooledAB_def emptyPool_def emptyBlock_def txA_def txB_def txC_def
      readmitTxn_cases offer_def acceptTransactionSet_def acceptAll_def mu_Lock_def
      updateDatabase_height maxTxnAge_def purge_def setID_def)

subsection \<open>What a working and a failing store leave in the log\<close>

lemma broken_log:
  "log (updateDatabase broken swapChange (mu_Lock pooledAB)) =
     [''ERROR: could not delete a transaction: read-only'',
      ''ERROR: could not delete a transaction: read-only'',
      ''ERROR: could not delete a transaction: read-only'',
      ''ERROR: could not add a transaction: read-only'',
      ''ERROR: could not update the recent consensus change: read-only'',
      ''ERROR: could not update the block height: read-only'']"
  by (simp add: updateDatabase_def recordHeight_def recordChange_def applyBlock_def applyTxn_def
      revertBlock_def revertTxn_def logError_def broken_def swapChange_def pooledAB_def
      emptyPool_def mu_Lock_def)

lemma journal_log:
  "log (updateDatabase journal swapChange (mu_Lock pooledAB)) = [] \<and>
   dbTx (updateDatabase journal swapChange (mu_Lock pooledAB)) = [3, 4, 2, 2, 1, 9]"
  by (simp add: updateDatabase_def recordHeight_def recordChange_def applyBlock_def applyTxn_def
      revertBlock_def revertTxn_def logError_def journal_def swapChange_def pooledAB_def
      emptyPool_def mu_Lock_def txB_def txC_def txD_def)

subsection \<open>A transaction admitted at height 4\<close>

lemmas eval_simps = ProcessConsensusChange_def mu_DemotedUnlock_def updateSubscribersTransactions_def
      mu_Demote_def reconcile_unfold pruneOld_pruneSets pruneSet_Cons
      stale_def saveUnconfirmed_map scanApplied_appliedIDs appliedIDs_def resurrectionCandidates_def
      readmitTxn_cases offer_def acceptTransactionSet_def acceptAll_def mu_Lock_def
      updateDatabase_height maxTxnAge_def purge_def

lemma admittedA_fields:
  "blockHeight admittedA = 4"
  "transactionSets admittedA = [setID [txA] \<mapsto> [txA]]"
  "transactionHeights admittedA = [ID txA \<mapsto> 4]"
  by (simp_all add: admittedA_def eval_simps growChange_def emptyPool_def emptyBlock_def txA_def
      txC_def)

section \<open>The block height\<close>

text \<open>
  Claim C3, as amended. Provided the admission gate leaves the block height alone, each
  call changes the block height by the number of applied blocks minus the number of
  reverted blocks in 64-bit unsigned arithmetic; after any sequence of changes processed
  from height 0 the block height is the net sum of the changes modulo \<open>2 ^ 64\<close>, so it
  is the net sum itself whenever that lies between 0 and \<open>2 ^ 64 - 1\<close>.
\<close>

theorem blockHeight_net_mod:
  assumes "gateKeepsHeight accept"
  shows "blockHeight (ProcessConsensusChange M accept order cc tp) =
           blockHeight tp + of_nat (length (AppliedBlocks cc)) - of_nat (length (RevertedBlocks cc)) \<and>
         (blockHeight tp = 0 \<longrightarrow>
            uint (blockHeight (processAll M accept cs tp)) = netHeight cs mod 2 ^ 64) \<and>
         (blockHeight tp = 0 \<and> 0 \<le> netHeight cs \<and> netHeight cs < 2 ^ 64 \<longrightarrow>
            uint (blockHeight (processAll M accept cs tp)) = netHeight cs)"
proof -
  have "blockHeight tp = 0 \<Longrightarrow>
          uint (blockHeight (processAll M accept cs tp)) = netHeight cs mod 2 ^ 64"
    by (simp add: processAll_height [OF assms] uint_word_of_int)
  then show ?thesis
    by (simp add: ProcessConsensusChange_height [OF assms])
qed

theorem blockHeight_net_mod_witness:
  "gateKeepsHeight (acceptTransactionSet :: (nat list, unit) gate) \<and>
   blockHeight emptyPool = 0 \<and>
   0 \<le> netHeight [([], growChange), ([], shorterChain)] \<and>
   netHeight [([], growChange), ([], shorterChain)] < 2 ^ 64 \<and>
   blockHeight (ProcessConsensusChange journal acceptTransactionSet [] growChange emptyPool) = 4 \<and>
   uint (blockHeight (processAll journal acceptTransactionSet
           [([], growChange), ([], shorterChain)] emptyPool)) = 2"
  using blockHeight_net_mod [OF acceptTransactionSet_keeps_height,
      of journal "[]" growChange emptyPool "[([], growChange), ([], shorterChain)]"]
  by (simp add: acceptTransactionSet_keeps_height netHeight_def growChange_def shorterChain_def
      emptyPool_def)

text \<open>
  The claim as it is written fails when the net sum is negative: from height 0, a change
  that reverts one block and applies none leaves the height at \<open>2 ^ 64 - 1\<close>, while
  the net sum is \<open>- 1\<close>.
\<close>

theorem blockHeight_below_zero_counterexample:
  "blockHeight emptyPool = 0 \<and>
   netHeight [([], revertOne)] = - 1 \<and>
   uint (blockHeight (processAll journal acceptTransactionSet [([], revertOne)] emptyPool))
     = 18446744073709551615 \<and>
   uint (blockHeight (processAll journal acceptTransactionSet [([], revertOne)] emptyPool))
     \<noteq> netHeight [([], revertOne)]"
  by (simp add: ProcessConsensusChange_height [OF acceptTransactionSet_keeps_height]
      netHeight_def revertOne_def emptyPool_def unsigned_minus_1_eq_mask mask_eq_exp_minus_1)

section \<open>Resurrection of the transactions of reverted blocks\<close>

text \<open>
  Claim C4. The loop over the reverted blocks, which counts the index down from the last
  block, offers to the admission gate exactly the resurrection candidates: the
  transactions of the reverted blocks taken in the reverse of the order of
  \<^verbatim>\<open>cc.RevertedBlocks\<close>, without those whose identifier is in an applied block. Each
  is offered as a singleton set with the validation capability of the change, and the
  pool after the offer is the pool the gate leaves, whatever the gate answers; so with a
  gate whose refusal leaves the pool as it was, a refused candidate changes nothing. In
  the reconciliation this happens on the purged pool, after the age filter and before
  the re-admission.
\<close>

theorem resurrection_walks_reverted_blocks_backwards:
  "resurrect accept cc (scanApplied cc) tp = foldl (offer accept cc) tp (resurrectionCandidates cc) \<and>
   (\<forall>txn. txn \<in> set (resurrectionCandidates cc) \<longleftrightarrow>
       ID txn \<notin> appliedIDs cc \<and> (\<exists>b \<in> set (RevertedBlocks cc). txn \<in> set (Transactions b))) \<and>
   (gateFailsCleanly accept \<longrightarrow>
      resurrect accept cc (scanApplied cc) tp =
        foldl (\<lambda>s txn. if fst (accept [txn] (TryTransactionSet cc) s) = None
                        then snd (accept [txn] (TryTransactionSet cc) s) else s)
          tp (resurrectionCandidates cc)) \<and>
   reconcile M accept order cc tp =
     readmit accept cc
       (snd (pruneOld (purge (updateDatabase M cc tp))
               (saveUnconfirmed (scanApplied cc) order (updateDatabase M cc tp))))
       (foldl (offer accept cc)
          (fst (pruneOld (purge (updateDatabase M cc tp))
                  (saveUnconfirmed (scanApplied cc) order (updateDatabase M cc tp))))
          (resurrectionCandidates cc))"
  using foldl_offer_atomic [of accept cc tp "resurrectionCandidates cc"]
  by (simp add: resurrect_candidates candidates_iff reconcile_phases)

theorem resurrection_walks_reverted_blocks_backwards_witness:
  "gateFailsCleanly (acceptTransactionSet :: (nat list, unit) gate) \<and>
   resurrectionCandidates swapChange = [txD, txC] \<and>
   resurrect acceptTransactionSet swapChange (scanApplied swapChange) emptyPool =
     offer acceptTransactionSet swapChange (offer acceptTransactionSet swapChange emptyPool txD) txC \<and>
   transactionSets (resurrect acceptTransactionSet swapChange (scanApplied swapChange) emptyPool)
     = [setID [txD] \<mapsto> [txD], setID [txC] \<mapsto> [txC]]"
  using resurrection_walks_reverted_blocks_backwards
    [of acceptTransactionSet swapChange emptyPool journal "[]"]
  by (simp add: acceptTransactionSet_fails_cleanly resurrectionCandidates_def appliedIDs_def
      swapChange_def txB_def txC_def txD_def offer_def acceptTransactionSet_def acceptAll_def
      emptyPool_def setID_def)

section \<open>Re-admission of the surviving transactions\<close>

text \<open>
  Claim C5. The re-admission offers every transaction that survived the age filter, in
  order, as a singleton set. When the gate answers without an error the pool is the one
  the gate leaves; when it answers with an error the entry of the transaction in the
  transaction heights is deleted from the pool the gate leaves, and nothing else changes.
\<close>

theorem readmission_forgets_height_on_error:
  "reconcile M accept order cc tp =
     foldl (readmitTxn accept cc)
       (resurrect accept cc (scanApplied cc)
          (fst (pruneOld (purge (updateDatabase M cc tp))
                  (saveUnconfirmed (scanApplied cc) order (updateDatabase M cc tp)))))
       (concat (snd (pruneOld (purge (updateDatabase M cc tp))
                  (saveUnconfirmed (scanApplied cc) order (updateDatabase M cc tp))))) \<and>
   (fst (accept [txn] (TryTransactionSet cc) s) = None \<longrightarrow>
      readmitTxn accept cc s txn = snd (accept [txn] (TryTransactionSet cc) s)) \<and>
   (fst (accept [txn] (TryTransactionSet cc) s) \<noteq> None \<longrightarrow>
      readmitTxn accept cc s txn =
        (snd (accept [txn] (TryTransactionSet cc) s))
          \<lparr>transactionHeights :=
             (transactionHeights (snd (accept [txn] (TryTransactionSet cc) s)))(ID txn := None)\<rparr> \<and>
      transactionHeights (readmitTxn accept cc s txn) (ID txn) = None)"
  by (simp add: reconcile_phases readmit_concat readmitTxn_cases)

theorem readmission_forgets_height_on_error_witness:
  "fst (acceptTransactionSet [txA] (TryTransactionSet swapChange) (purge pooledAB)) = None \<and>
   transactionHeights (readmitTxn acceptTransactionSet swapChange (purge pooledAB) txA) 1 = Some 10 \<and>
   fst (acceptTransactionSet [txA] (TryTransactionSet (swapChange\<lparr>TryTransactionSet := rejectAll\<rparr>))
          (purge pooledAB)) \<noteq> None \<and>
   transactionHeights (readmitTxn acceptTransactionSet (swapChange\<lparr>TryTransactionSet := rejectAll\<rparr>)
          (purge pooledAB) txA) 1 = None"
  using readmission_forgets_height_on_error
    [of journal acceptTransactionSet "[7]" swapChange pooledAB txA "purge pooledAB"]
    readmission_forgets_height_on_error
    [of journal acceptTransactionSet "[7]" "swapChange\<lparr>TryTransactionSet := rejectAll\<rparr>" pooledAB
        txA "purge pooledAB"]
  by (simp add: acceptTransactionSet_def swapChange_def acceptAll_def rejectAll_def pooledAB_def
      emptyPool_def txA_def purge_def)

section \<open>Confirmed transactions leave the pool\<close>

text \<open>
  Claim C1. Provided the admission gate adds no set but the one it is offered, no
  transaction contained in an applied block of the change is in any set of the pool
  after \<^verbatim>\<open>ProcessConsensusChange\<close>. The copy saved of each pooled set is the set
  filtered by "the identifier is in no applied block": it drops exactly the transactions
  whose identifiers occur in applied blocks and keeps the others in their order. When
  the map iteration visits each pooled set once, there is one copy per pooled set.
\<close>

theorem confirmed_transactions_leave_the_pool:
  assumes "gateRecordsOffered accept"
  shows "(\<forall>b \<in> set (AppliedBlocks cc). \<forall>T \<in> set (Transactions b).
            \<forall>s \<in> ran (transactionSets (ProcessConsensusChange M accept order cc tp)). T \<notin> set s) \<and>
         saveUnconfirmed (scanApplied cc) order (updateDatabase M cc (mu_Lock tp)) =
           map (\<lambda>k. filter (\<lambda>txn. ID txn \<notin> appliedIDs cc)
                       (case transactionSets tp k of Some tSet \<Rightarrow> tSet | None \<Rightarrow> [])) order \<and>
         (rangeOrder order tp \<longrightarrow>
            length (saveUnconfirmed (scanApplied cc) order (updateDatabase M cc (mu_Lock tp)))
              = card (dom (transactionSets tp)) \<and>
            (\<forall>tSet \<in> ran (transactionSets tp).
               filter (\<lambda>txn. ID txn \<notin> appliedIDs cc) tSet
                 \<in> set (saveUnconfirmed (scanApplied cc) order (updateDatabase M cc (mu_Lock tp)))))"
proof -
  have 1: "T \<notin> set s"
    if "b \<in> set (AppliedBlocks cc)" "T \<in> set (Transactions b)"
      "s \<in> ran (transactionSets (ProcessConsensusChange M accept order cc tp))" for b T s
  proof -
    from pooled_after [OF assms that(3)] obtain txn where "s = [txn]" "ID txn \<notin> appliedIDs cc"
      by blast
    moreover have "ID T \<in> appliedIDs cc"
      using that(1,2) by (auto simp: appliedIDs_def)
    ultimately show ?thesis by auto
  qed
  have 2: "saveUnconfirmed (scanApplied cc) order (updateDatabase M cc (mu_Lock tp)) =
           map (\<lambda>k. filter (\<lambda>txn. ID txn \<notin> appliedIDs cc)
                       (case transactionSets tp k of Some tSet \<Rightarrow> tSet | None \<Rightarrow> [])) order"
    by (simp add: saveUnconfirmed_map scanApplied_appliedIDs mu_Lock_def)
  have 3: "length (map (\<lambda>k. filter (\<lambda>txn. ID txn \<notin> appliedIDs cc)
                       (case transactionSets tp k of Some tSet \<Rightarrow> tSet | None \<Rightarrow> [])) order)
             = card (dom (transactionSets tp))" if "rangeOrder order tp"
    using that distinct_card [of order] by (simp add: rangeOrder_def)
  have 4: "filter (\<lambda>txn. ID txn \<notin> appliedIDs cc) tSet
             \<in> set (map (\<lambda>k. filter (\<lambda>txn. ID txn \<notin> appliedIDs cc)
                       (case transactionSets tp k of Some tSet \<Rightarrow> tSet | None \<Rightarrow> [])) order)"
    if "rangeOrder order tp" "tSet \<in> ran (transactionSets tp)" for tSet
  proof -
    from that(2) obtain k where k: "transactionSets tp k = Some tSet" by (auto simp: ran_def)
    then have "k \<in> set order" using that(1) by (auto simp: rangeOrder_def)
    then show ?thesis using k by (force simp: image_iff)
  qed
  show ?thesis unfolding 2 using 1 3 4 by blast
qed

theorem confirmed_transactions_leave_the_pool_witness:
  "gateRecordsOffered (acceptTransactionSet :: (nat list, unit) gate) \<and>
   rangeOrder [7] pooledAB \<and>
   AppliedBlocks swapChange = [\<lparr>Transactions = [txB]\<rparr>] \<and>
   \<not> (\<exists>s \<in> ran (transactionSets
                  (ProcessConsensusChange journal acceptTransactionSet [7] swapChange pooledAB)).
        txB \<in> set s) \<and>
   saveUnconfirmed (scanApplied swapChange) [7] (updateDatabase journal swapChange (mu_Lock pooledAB))
     = [[txA]]"
  using confirmed_transactions_leave_the_pool
    [OF acceptTransactionSet_records_offered, of swapChange journal "[7]" pooledAB]
  by (simp add: acceptTransactionSet_records_offered rangeOrder_def pooledAB_def emptyPool_def
      swapChange_def appliedIDs_def txA_def txB_def)

section \<open>Only singleton sets are offered, and only singleton sets survive\<close>

text \<open>
  Claim C9. \<^verbatim>\<open>ProcessConsensusChange\<close> calls the admission gate on singleton sets only:
  two gates that agree on singleton sets give the same result. The pool is purged before
  any admission, so, provided the gate adds no set but the one it is offered, every set
  in the pool afterwards has length one; it holds a transaction whose identifier is in no
  applied block and which comes from a reverted block or from a previously pooled set.
\<close>

theorem only_singleton_sets_survive:
  "((\<forall>txn try s. accept [txn] try s = accept' [txn] try s) \<longrightarrow>
      ProcessConsensusChange M accept order cc tp = ProcessConsensusChange M accept' order cc tp) \<and>
   (gateRecordsOffered accept \<longrightarrow>
      (\<forall>s \<in> ran (transactionSets (ProcessConsensusChange M accept order cc tp)).
         length s = 1 \<and>
         (\<exists>txn. s = [txn] \<and> ID txn \<notin> appliedIDs cc \<and>
            ((\<exists>b \<in> set (RevertedBlocks cc). txn \<in> set (Transactions b)) \<or>
             (\<exists>k \<in> set order. \<exists>tSet. transactionSets tp k = Some tSet \<and> txn \<in> set tSet)))))"
proof -
  have "length s = 1 \<and>
         (\<exists>txn. s = [txn] \<and> ID txn \<notin> appliedIDs cc \<and>
            ((\<exists>b \<in> set (RevertedBlocks cc). txn \<in> set (Transactions b)) \<or>
             (\<exists>k \<in> set order. \<exists>tSet. transactionSets tp k = Some tSet \<and> txn \<in> set tSet)))"
    if "gateRecordsOffered accept"
      "s \<in> ran (transactionSets (ProcessConsensusChange M accept order cc tp))" for s
    using pooled_after [OF that] by auto
  moreover have "ProcessConsensusChange M accept order cc tp =
                 ProcessConsensusChange M accept' order cc tp"
    if "\<forall>txn try s. accept [txn] try s = accept' [txn] try s"
    using that by (simp add: ProcessConsensusChange_def gate_on_singletons [of accept accept'])
  ultimately show ?thesis by blast
qed

theorem only_singleton_sets_survive_witness:
  "gateRecordsOffered (acceptTransactionSet :: (nat list, unit) gate) \<and>
   transactionSets pooledAB = [7 \<mapsto> [txA, txB]] \<and>
   ProcessConsensusChange journal acceptTransactionSet [7] growChange pooledAB =
     ProcessConsensusChange journal singletonGate [7] growChange pooledAB \<and>
   transactionSets (ProcessConsensusChange journal acceptTransactionSet [7] growChange pooledAB)
     = [setID [txA] \<mapsto> [txA], setID [txB] \<mapsto> [txB]] \<and>
   \<not> (\<exists>s \<in> ran (transactionSets
                  (ProcessConsensusChange journal acceptTransactionSet [7] growChange pooledAB)).
        length s \<noteq> 1)"
proof -
  note t = only_singleton_sets_survive
    [of acceptTransactionSet singletonGate journal "[7]" growChange pooledAB]
  have g: "\<forall>txn try s. (acceptTransactionSet :: (nat list, unit) gate) [txn] try s
                        = singletonGate [txn] try s"
    by (simp add: singletonGate_def)
  from t [THEN conjunct1] g
  have eq: "ProcessConsensusChange journal acceptTransactionSet [7] growChange pooledAB =
            ProcessConsensusChange journal singletonGate [7] growChange pooledAB"
    by (rule mp)
  from t [THEN conjunct2] acceptTransactionSet_records_offered
  have "\<forall>s \<in> ran (transactionSets
                  (ProcessConsensusChange journal acceptTransactionSet [7] growChange pooledAB)).
          length s = 1 \<and>
          (\<exists>txn. s = [txn] \<and> ID txn \<notin> appliedIDs growChange \<and>
             ((\<exists>b \<in> set (RevertedBlocks growChange). txn \<in> set (Transactions b)) \<or>
              (\<exists>k \<in> set [7]. \<exists>tSet. transactionSets pooledAB k = Some tSet \<and> txn \<in> set tSet)))"
    by (rule mp)
  then have nb: "\<not> (\<exists>s \<in> ran (transactionSets
                  (ProcessConsensusChange journal acceptTransactionSet [7] growChange pooledAB)).
        length s \<noteq> 1)"
    by fast
  have sets: "transactionSets pooledAB = [7 \<mapsto> [txA, txB]]"
    by (simp add: pooledAB_def emptyPool_def)
  show ?thesis
    by (intro conjI, rule acceptTransactionSet_records_offered, rule sets, rule eq,
        rule growth_sets, rule nb)
qed

section \<open>Failures of the durable store\<close>

text \<open>
  Claim C7. \<^verbatim>\<open>ProcessConsensusChange\<close> returns a pool and no error, and it is a total
  function of its arguments: every call runs to completion. Provided the effect of the
  admission gate on the in-memory state depends on the in-memory state only, the
  in-memory state after the call (object claims, transaction sets, diffs, size counter,
  transaction heights, block height) is the same whatever the four operations of the
  durable store do and return: their outcomes reach the store and the log only.
\<close>

theorem mirror_failures_do_not_reach_memory:
  assumes "gateIgnoresMirror accept" and "inMemory tp = inMemory tp'"
  shows "inMemory (ProcessConsensusChange M accept order cc tp) =
         inMemory (ProcessConsensusChange M' accept order cc tp')"
proof -
  have "inMemory (mu_Lock tp) = inMemory (mu_Lock tp')"
    using assms(2) by (simp add: inMemory_def mu_Lock_def)
  from inMemory_reconcile [OF assms(1) this, of M order cc M'] show ?thesis
    by (simp add: ProcessConsensusChange_def inMemory_def mu_DemotedUnlock_def
        updateSubscribersTransactions_def mu_Demote_def)
qed

theorem mirror_failures_do_not_reach_memory_witness:
  "gateIgnoresMirror (acceptTransactionSet :: (nat list, unit) gate) \<and>
   inMemory (ProcessConsensusChange journal acceptTransactionSet [7] swapChange pooledAB) =
   inMemory (ProcessConsensusChange broken acceptTransactionSet [7] swapChange pooledAB) \<and>
   log (updateDatabase journal swapChange (mu_Lock pooledAB)) = [] \<and>
   length (log (updateDatabase broken swapChange (mu_Lock pooledAB))) = 6"
  using mirror_failures_do_not_reach_memory
    [OF acceptTransactionSet_ignores_mirror refl, of journal "[7]" swapChange pooledAB broken]
  by (simp add: acceptTransactionSet_ignores_mirror broken_log journal_log)

section \<open>The age filter\<close>

text \<open>
  Claim C10. The age test subtracts in 64-bit unsigned arithmetic. For a transaction
  whose recorded first-seen height \<open>H\<close> is strictly greater than the block height, the
  difference wraps to \<open>2 ^ 64 - (H - height)\<close> although the mathematical age is
  negative, and the step of the age filter drops the transaction and deletes its height
  entry exactly when the wrapped difference exceeds 12. Over the whole list of saved
  sets, when no two saved transactions share an identifier, such a transaction is absent
  from its filtered set and has no height entry afterwards.
\<close>

theorem age_test_wraps_below_first_seen_height:
  "(heights (ID txn) = Some H \<and> bh < H \<longrightarrow>
      uint (bh - H) = 2 ^ 64 - (uint H - uint bh) \<and>
      uint bh - uint H < 0 \<and>
      pruneTxn bh (heights, validTxns) txn =
        (if 12 < uint (bh - H) then (heights(ID txn := None), validTxns)
         else (heights, validTxns @ [txn]))) \<and>
   (distinct (map ID (concat us)) \<and> i < length us \<and> txn \<in> set (us ! i) \<and>
    transactionHeights tp (ID txn) = Some H \<and> blockHeight tp < H \<and>
    12 < uint (blockHeight tp - H) \<longrightarrow>
      txn \<notin> set (snd (pruneOld tp us) ! i) \<and>
      transactionHeights (fst (pruneOld tp us)) (ID txn) = None)"
proof -
  have 1: "pruneTxn bh (heights, validTxns) txn =
        (if 12 < uint (bh - H) then (heights(ID txn := None), validTxns)
         else (heights, validTxns @ [txn]))" if "heights (ID txn) = Some H"
    using that by (simp add: pruneTxn_stale stale_uint)
  have 2: "txn \<notin> set (snd (pruneOld tp us) ! i) \<and>
      transactionHeights (fst (pruneOld tp us)) (ID txn) = None"
    if d: "distinct (map ID (concat us))" and i: "i < length us" and t: "txn \<in> set (us ! i)"
      and h: "transactionHeights tp (ID txn) = Some H" and s: "12 < uint (blockHeight tp - H)"
  proof -
    have st: "stale (blockHeight tp) (transactionHeights tp) txn"
      using h s by (simp add: stale_uint)
    have "us ! i \<in> set us" using i by (rule nth_mem)
    with t have "txn \<in> set (concat us)" by auto
    with st show ?thesis
      using i by (auto simp: pruneOld_pruneSets pruneSets_distinct [OF d])
  qed
  show ?thesis
    using 1 2 by (auto simp: uint_wrapped word_less_def)
qed

theorem age_test_wraps_below_first_seen_height_witness:
  "transactionHeights (pooledAB\<lparr>blockHeight := 8\<rparr>) (ID txA) = Some 10 \<and>
   blockHeight (pooledAB\<lparr>blockHeight := 8\<rparr>) < 10 \<and>
   distinct (map ID (concat [[txA, txB]])) \<and>
   uint (8 - 10 :: BlockHeight) = 18446744073709551614 \<and>
   txA \<notin> set (snd (pruneOld (pooledAB\<lparr>blockHeight := 8\<rparr>) [[txA, txB]]) ! 0) \<and>
   transactionHeights (fst (pruneOld (pooledAB\<lparr>blockHeight := 8\<rparr>) [[txA, txB]])) (ID txA) = None"
  using age_test_wraps_below_first_seen_height
    [of "transactionHeights pooledAB" txA 10 8 "[]" "[[txA, txB]]" 0 "pooledAB\<lparr>blockHeight := 8\<rparr>"]
  by (simp add: pooledAB_def emptyPool_def txA_def txB_def)

text \<open>
  Claim C2 reads the age as a difference of integers. The program agrees with it as long
  as the recorded height does not exceed the block height (lemma
  \<open>age_test_without_wrap\<close>), and departs from it otherwise. From the empty pool:
  four blocks are applied, \<open>[txA]\<close> is admitted and first seen at height 4, then a
  change reverts three blocks and applies one. The block height is 2, the age of
  \<open>txA\<close> is \<open>2 - 4\<close>, which is not above 12, and the validation capability accepts
  \<open>[txA]\<close>; yet the age filter drops \<open>txA\<close> and deletes its height entry, and the
  pool ends empty.
\<close>

theorem age_filter_evicts_transaction_seen_above_height:
  "blockHeight admittedA = 4 \<and>
   transactionSets admittedA = [setID [txA] \<mapsto> [txA]] \<and>
   transactionHeights admittedA (ID txA) = Some 4 \<and>
   TryTransactionSet shorterChain [txA] = Inr () \<and>
   blockHeight (ProcessConsensusChange journal acceptTransactionSet [setID [txA]] shorterChain
                  admittedA) = 2 \<and>
   uint (2 :: BlockHeight) - uint (4 :: BlockHeight) \<le> uint maxTxnAge \<and>
   transactionSets (ProcessConsensusChange journal acceptTransactionSet [setID [txA]] shorterChain
                      admittedA) = Map.empty \<and>
   transactionHeights (ProcessConsensusChange journal acceptTransactionSet [setID [txA]]
                         shorterChain admittedA) (ID txA) = None"
  by (simp add: admittedA_fields eval_simps shorterChain_def emptyBlock_def txA_def)

end
